theory Spec2Isabelle
  imports Complex_Main
begin

section \<open>The frame loaders of loader.py\<close>

text \<open>
  The module defines an abstract \<^verbatim>\<open>Loader\<close> (an offset and an index cursor), an
  \<^verbatim>\<open>ImageLoader\<close> over a directory of numbered still images, a \<^verbatim>\<open>VideoLoader\<close> over
  a video file, and \<^verbatim>\<open>get_loader\<close>, which picks one of the two from a configuration.
  Frames are values of an arbitrary type \<open>'f\<close>; Python's \<^verbatim>\<open>None\<close> in place of a frame is
  \<open>None\<close> of \<open>'f option\<close>. Python integers are \<open>int\<close>.
\<close>

subsection \<open>Errors\<close>

datatype error = KeyError string | FileNotFoundError string

subsection \<open>The configuration record\<close>

text \<open>
  One entry of the JSON configuration: a dictionary with the five keys the module reads.
  A key that is absent is \<open>None\<close>; subscripting it raises \<^verbatim>\<open>KeyError\<close>.
\<close>

record config =
  cfg_image_number_offset :: "int option"
  cfg_image_dataset :: "string option"
  cfg_image_path_prefix :: "string option"
  cfg_image_path_digits :: "int option"
  cfg_video_path :: "string option"

subsection \<open>The world outside the module: files and the decoder library\<close>

text \<open>
  A video file holds its frames and the value the decoder reports for
  \<^verbatim>\<open>CAP_PROP_FRAME_COUNT\<close> (a float in Python, a real here).
\<close>

record 'f video =
  frames :: "'f list"
  frame_count :: real

text \<open>
  A capture object of the decoder library: whether it is open, the frames it has not
  decoded yet, its frame-count property, how many times its \<^verbatim>\<open>read()\<close> was invoked, and
  whether \<^verbatim>\<open>release()\<close> was called on it.
\<close>

record 'f capture =
  opened :: bool
  pending :: "'f list"
  count_prop :: real
  grabs :: nat
  released :: bool

text \<open>
  The world: the parsed configuration files by path, the directory listings, the still
  images that decode, the videos that open, the log of paths handed to \<^verbatim>\<open>cv2.imread\<close>,
  and the store of capture objects (a handle is a number; \<open>next_cap\<close> is the first
  handle not yet given out).
\<close>

record 'f world =
  config_files :: "string \<rightharpoonup> (string \<rightharpoonup> config)"
  dirs :: "string \<rightharpoonup> string list"
  image_files :: "string \<rightharpoonup> 'f"
  video_files :: "string \<rightharpoonup> 'f video"
  imread_log :: "string list"
  caps :: "nat \<Rightarrow> 'f capture"
  next_cap :: nat

text \<open>
  \<^verbatim>\<open>cv2.imread(path)\<close>: the decoded image, or \<^verbatim>\<open>None\<close> when the file is missing or
  does not decode (the library returns an empty result, it does not raise). Every call is
  logged.
\<close>

definition imread :: "string \<Rightarrow> 'f world \<Rightarrow> 'f option \<times> 'f world" where
  "imread p w = (image_files w p, w\<lparr>imread_log := imread_log w @ [p]\<rparr>)"

text \<open>
  \<^verbatim>\<open>cv2.VideoCapture(path)\<close>: a new capture object. It is open on the frames of the
  video when the file opens, and closed with no frames and a frame count of zero otherwise.
\<close>

definition fresh_capture :: "'f video option \<Rightarrow> 'f capture" where
  "fresh_capture vo =
     (case vo of
        None \<Rightarrow> \<lparr>opened = False, pending = [], count_prop = 0, grabs = 0, released = False\<rparr>
      | Some v \<Rightarrow> \<lparr>opened = True, pending = frames v, count_prop = frame_count v,
                   grabs = 0, released = False\<rparr>)"

definition VideoCapture :: "string \<Rightarrow> 'f world \<Rightarrow> nat \<times> 'f world" where
  "VideoCapture p w =
     (next_cap w,
      w\<lparr>caps := (caps w)(next_cap w := fresh_capture (video_files w p)),
        next_cap := Suc (next_cap w)\<rparr>)"

definition cap_isOpened :: "nat \<Rightarrow> 'f world \<Rightarrow> bool" where
  "cap_isOpened h w = opened (caps w h)"

text \<open>
  \<^verbatim>\<open>cap.read()\<close>: the next frame with \<^verbatim>\<open>True\<close>, or \<^verbatim>\<open>(False, None)\<close> when the capture
  is closed or has no frame left. Every invocation is counted.
\<close>

definition cap_read :: "nat \<Rightarrow> 'f world \<Rightarrow> (bool \<times> 'f option) \<times> 'f world" where
  "cap_read h w =
     (let c = caps w h in
      if opened c then
        (case pending c of
           [] \<Rightarrow> ((False, None), w\<lparr>caps := (caps w)(h := c\<lparr>grabs := Suc (grabs c)\<rparr>)\<rparr>)
         | x # xs \<Rightarrow>
             ((True, Some x),
              w\<lparr>caps := (caps w)(h := c\<lparr>pending := xs, grabs := Suc (grabs c)\<rparr>)\<rparr>))
      else ((False, None), w\<lparr>caps := (caps w)(h := c\<lparr>grabs := Suc (grabs c)\<rparr>)\<rparr>))"

definition cap_get_frame_count :: "nat \<Rightarrow> 'f world \<Rightarrow> real" where
  "cap_get_frame_count h w = count_prop (caps w h)"

definition cap_release :: "nat \<Rightarrow> 'f world \<Rightarrow> 'f world" where
  "cap_release h w =
     w\<lparr>caps := (caps w)(h := (caps w h)\<lparr>opened := False, released := True\<rparr>)\<rparr>"

text \<open>Python's \<^verbatim>\<open>int(x)\<close> on a float: truncation toward zero.\<close>

definition py_int :: "real \<Rightarrow> int" where
  "py_int x = (if 0 \<le> x then \<lfloor>x\<rfloor> else \<lceil>x\<rceil>)"

subsection \<open>Formatting an integer with a zero-padded minimum width\<close>

text \<open>
  The format specification \<^verbatim>\<open>{i:05}\<close> of an f-string: the decimal numeral of \<open>i\<close>, filled
  with zeros on the left up to the width. The width is a minimum: a longer numeral is
  written in full. A minus sign comes first and counts towards the width.
\<close>

definition digit_char :: "nat \<Rightarrow> char" where
  "digit_char d = ''0123456789'' ! d"

fun decimal :: "nat \<Rightarrow> string" where
  "decimal n = (if n < 10 then [digit_char n] else decimal (n div 10) @ [digit_char (n mod 10)])"

definition zfill :: "nat \<Rightarrow> string \<Rightarrow> string" where
  "zfill k s = replicate (k - length s) (CHR ''0'') @ s"

definition format_zero_padded :: "nat \<Rightarrow> int \<Rightarrow> string" where
  "format_zero_padded width i =
     (if i < 0 then CHR ''-'' # zfill (width - 1) (decimal (nat (- i)))
      else zfill width (decimal (nat i)))"

text \<open>Reading a decimal numeral back, to say which number a string of digits denotes.\<close>

definition digit_value :: "char \<Rightarrow> nat" where
  "digit_value c = of_char c - 48"

definition decimal_value :: "string \<Rightarrow> nat" where
  "decimal_value s = foldl (\<lambda>a c. 10 * a + digit_value c) 0 s"

subsection \<open>Loader\<close>

record Loader =
  offset :: int
  index :: int

subsection \<open>ImageLoader\<close>

record ImageLoader = Loader +
  image_dataset :: string
  prefix :: string
  digits :: int
  image_number :: int

definition ImageLoader_init :: "config \<Rightarrow> 'f world \<Rightarrow> error + ImageLoader" where
  "ImageLoader_init cfg w =
     (case cfg_image_number_offset cfg of
        None \<Rightarrow> Inl (KeyError ''image_number_offset'')
      | Some off \<Rightarrow>
     (case cfg_image_dataset cfg of
        None \<Rightarrow> Inl (KeyError ''image_dataset'')
      | Some d \<Rightarrow>
     (case cfg_image_path_prefix cfg of
        None \<Rightarrow> Inl (KeyError ''image_path_prefix'')
      | Some p \<Rightarrow>
     (case cfg_image_path_digits cfg of
        None \<Rightarrow> Inl (KeyError ''image_path_digits'')
      | Some g \<Rightarrow>
     (case dirs w d of
        None \<Rightarrow> Inl (FileNotFoundError d)
      | Some entries \<Rightarrow>
          Inr \<lparr>offset = off, index = 0, image_dataset = d, prefix = p, digits = g,
               image_number = int (length entries)\<rparr>)))))"

definition ImageLoader_has_images :: "ImageLoader \<Rightarrow> bool" where
  "ImageLoader_has_images L = (index L < image_number L)"

definition ImageLoader_path :: "ImageLoader \<Rightarrow> int \<Rightarrow> string" where
  "ImageLoader_path L i0 =
     (let i = i0 + offset L in
      if digits L = 5 then
        image_dataset L @ ''/'' @ prefix L @ format_zero_padded 5 i @ ''.jpg''
      else if digits L = 3 then
        image_dataset L @ ''/'' @ prefix L @ format_zero_padded 3 i @ ''.jpg''
      else image_dataset L @ ''/'' @ prefix L @ format_zero_padded 4 i @ ''.jpg'')"

text \<open>
  The path as the specification words it: the directory, a slash, the prefix, the number
  zero-padded to the width chosen by the digit count (5, 3, and 4 for anything else), and
  the extension.
\<close>

definition pad_width :: "int \<Rightarrow> nat" where
  "pad_width g = (if g = 5 then 5 else if g = 3 then 3 else 4)"

definition numbered_path :: "ImageLoader \<Rightarrow> int \<Rightarrow> string" where
  "numbered_path L n =
     image_dataset L @ ''/'' @ prefix L @ format_zero_padded (pad_width (digits L)) n @ ''.jpg''"

definition ImageLoader_set_index :: "ImageLoader \<Rightarrow> int \<Rightarrow> ImageLoader" where
  "ImageLoader_set_index L v = L\<lparr>index := v\<rparr>"

definition ImageLoader_read ::
  "ImageLoader \<Rightarrow> 'f world \<Rightarrow> 'f option \<times> ImageLoader \<times> 'f world" where
  "ImageLoader_read L w =
     (let L' = L\<lparr>index := index L + 1\<rparr>;
          (img, w') = imread (ImageLoader_path L' (index L')) w
      in (img, L', w'))"

definition ImageLoader_end :: "ImageLoader \<Rightarrow> 'f world \<Rightarrow> 'f world" where
  "ImageLoader_end L w = w"

subsection \<open>VideoLoader\<close>

record 'f VideoLoader = Loader +
  video_path :: string
  cap :: nat
  image_buf :: "'f option"
  image_read :: bool
  total_frames :: int

definition VideoLoader_has_images ::
  "'f VideoLoader \<Rightarrow> 'f world \<Rightarrow> bool \<times> 'f VideoLoader \<times> 'f world" where
  "VideoLoader_has_images L w =
     (if \<not> cap_isOpened (cap L) w then (False, L, w)
      else (let ((ret, img), w') = cap_read (cap L) w
            in (ret, L\<lparr>image_buf := img, image_read := False\<rparr>, w')))"

definition VideoLoader_read ::
  "'f VideoLoader \<Rightarrow> 'f world \<Rightarrow> 'f option \<times> 'f VideoLoader \<times> 'f world" where
  "VideoLoader_read L w =
     (let L1 = L\<lparr>index := index L + 1\<rparr>;
          (L2, w2) = (if image_read L1
                      then (let ((ret, img), w') = cap_read (cap L1) w
                            in (L1\<lparr>image_buf := img\<rparr>, w'))
                      else (L1, w));
          L3 = L2\<lparr>image_read := True\<rparr>
      in (image_buf L3, L3, w2))"

definition VideoLoader_end :: "'f VideoLoader \<Rightarrow> 'f world \<Rightarrow> 'f world" where
  "VideoLoader_end L w = cap_release (cap L) w"

text \<open>The body of the skip loop, \<^verbatim>\<open>if self.has_images(): self.read()\<close>.\<close>

definition skip_step :: "'f VideoLoader \<Rightarrow> 'f world \<Rightarrow> 'f VideoLoader \<times> 'f world" where
  "skip_step L w =
     (let (b, L1, w1) = VideoLoader_has_images L w in
      if b then (let (img, L2, w2) = VideoLoader_read L1 w1 in (L2, w2))
      else (L1, w1))"

text \<open>The loop \<^verbatim>\<open>for _ in range(n)\<close> around that body.\<close>

fun skip_offset ::
  "nat \<Rightarrow> 'f VideoLoader \<Rightarrow> 'f world \<Rightarrow> 'f VideoLoader \<times> 'f world" where
  "skip_offset 0 L w = (L, w)"
| "skip_offset (Suc n) L w = (let (L1, w1) = skip_step L w in skip_offset n L1 w1)"

text \<open>
  A capture object is deallocated when its last reference goes away, and its destructor
  releases the capture.
\<close>

definition cap_dealloc :: "nat \<Rightarrow> 'f world \<Rightarrow> 'f world" where
  "cap_dealloc h w = cap_release h w"

text \<open>
  The constructor. The second capture object, the local \<^verbatim>\<open>cap\<close>, is asked for the frame
  count and is not stored in the loader: it lives until the constructor returns, when its
  only reference goes away. \<^verbatim>\<open>range(offset + 1)\<close> is empty when \<open>offset + 1 \<le> 0\<close>.
\<close>

definition VideoLoader_init ::
  "config \<Rightarrow> 'f world \<Rightarrow> error + ('f VideoLoader \<times> 'f world)" where
  "VideoLoader_init cfg w =
     (case cfg_image_number_offset cfg of
        None \<Rightarrow> Inl (KeyError ''image_number_offset'')
      | Some off \<Rightarrow>
     (case cfg_video_path cfg of
        None \<Rightarrow> Inl (KeyError ''video_path'')
      | Some p \<Rightarrow>
          (let (h1, w1) = VideoCapture p w;
               (h2, w2) = VideoCapture p w1;
               L0 = \<lparr>offset = off, index = 0, video_path = p, cap = h1,
                     image_buf = None, image_read = False,
                     total_frames = py_int (cap_get_frame_count h2 w2) + 1\<rparr>;
               (L, w3) = skip_offset (nat (off + 1)) L0 w2
           in Inr (L, cap_dealloc h2 w3))))"

subsection \<open>get_loader\<close>

datatype 'f loader = is_ImageLoader: ImageL ImageLoader | is_VideoLoader: VideoL "'f VideoLoader"

definition get_loader ::
  "string \<Rightarrow> string \<Rightarrow> 'f world \<Rightarrow> error + ('f loader \<times> 'f world)" where
  "get_loader config_path video_identifier w =
     (case config_files w config_path of
        None \<Rightarrow> Inl (FileNotFoundError config_path)
      | Some js \<Rightarrow>
     (case js video_identifier of
        None \<Rightarrow> Inl (KeyError video_identifier)
      | Some cfg \<Rightarrow>
     (case cfg_image_dataset cfg of
        None \<Rightarrow> Inl (KeyError ''image_dataset'')
      | Some image_folder_path \<Rightarrow>
     (case dirs w image_folder_path of
        None \<Rightarrow> Inl (FileNotFoundError image_folder_path)
      | Some entries \<Rightarrow>
          if entries \<noteq> [] then
            (case ImageLoader_init cfg w of
               Inl e \<Rightarrow> Inl e
             | Inr L \<Rightarrow> Inr (ImageL L, w))
          else
            (case VideoLoader_init cfg w of
               Inl e \<Rightarrow> Inl e
             | Inr (L, w') \<Rightarrow> Inr (VideoL L, w'))))))"

subsection \<open>Call patterns of a caller\<close>

text \<open>\<open>n\<close> calls of \<^verbatim>\<open>read()\<close>, with the list of the values returned.\<close>

fun read_n ::
  "nat \<Rightarrow> 'f VideoLoader \<Rightarrow> 'f world \<Rightarrow> 'f option list \<times> 'f VideoLoader \<times> 'f world" where
  "read_n 0 L w = ([], L, w)"
| "read_n (Suc n) L w =
     (let (x, L1, w1) = VideoLoader_read L w;
          (xs, L2, w2) = read_n n L1 w1
      in (x # xs, L2, w2))"

text \<open>
  \<open>n\<close> rounds of \<^verbatim>\<open>has_images()\<close> followed by \<^verbatim>\<open>read()\<close>, with the list of the values
  that \<^verbatim>\<open>read()\<close> returned.
\<close>

fun has_images_read_n ::
  "nat \<Rightarrow> 'f VideoLoader \<Rightarrow> 'f world \<Rightarrow> 'f option list \<times> 'f VideoLoader \<times> 'f world" where
  "has_images_read_n 0 L w = ([], L, w)"
| "has_images_read_n (Suc n) L w =
     (let (b, L0, w0) = VideoLoader_has_images L w;
          (x, L1, w1) = VideoLoader_read L0 w0;
          (xs, L2, w2) = has_images_read_n n L1 w1
      in (x # xs, L2, w2))"

text \<open>Any sequence of the three operations of a VideoLoader.\<close>

datatype video_op = HasImages | Read | End

fun run_ops ::
  "video_op list \<Rightarrow> 'f VideoLoader \<Rightarrow> 'f world \<Rightarrow> 'f VideoLoader \<times> 'f world" where
  "run_ops [] L w = (L, w)"
| "run_ops (HasImages # ops) L w =
     (let (b, L1, w1) = VideoLoader_has_images L w in run_ops ops L1 w1)"
| "run_ops (Read # ops) L w =
     (let (x, L1, w1) = VideoLoader_read L w in run_ops ops L1 w1)"
| "run_ops (End # ops) L w = run_ops ops L (VideoLoader_end L w)"

text \<open>\<open>n\<close> calls of \<^verbatim>\<open>read()\<close> on an ImageLoader, with the list of the values returned.\<close>

fun ImageLoader_read_n ::
  "nat \<Rightarrow> ImageLoader \<Rightarrow> 'f world \<Rightarrow> 'f option list \<times> ImageLoader \<times> 'f world" where
  "ImageLoader_read_n 0 L w = ([], L, w)"
| "ImageLoader_read_n (Suc n) L w =
     (let (x, L1, w1) = ImageLoader_read L w;
          (xs, L2, w2) = ImageLoader_read_n n L1 w1
      in (x # xs, L2, w2))"

subsection \<open>Concrete scenarios\<close>

text \<open>
  A station whose image directory holds two numbered files, an empty directory, and a
  video clip of four frames; frames are natural numbers.
\<close>

definition demo_config :: "int \<Rightarrow> config" where
  "demo_config off =
     \<lparr>cfg_image_number_offset = Some off, cfg_image_dataset = Some ''imgs'',
      cfg_image_path_prefix = Some ''frame'', cfg_image_path_digits = Some 3,
      cfg_video_path = Some ''clip.mp4''\<rparr>"

definition demo_world :: "nat world" where
  "demo_world =
     \<lparr>config_files =
        [''station.json'' \<mapsto>
           [''images'' \<mapsto> demo_config 2,
            ''video'' \<mapsto> (demo_config 1)\<lparr>cfg_image_dataset := Some ''empty''\<rparr>]],
      dirs = [''imgs'' \<mapsto> [''frame003.jpg'', ''frame004.jpg''], ''empty'' \<mapsto> []],
      image_files = [''imgs/frame003.jpg'' \<mapsto> 103, ''imgs/frame004.jpg'' \<mapsto> 104],
      video_files = [''clip.mp4'' \<mapsto> \<lparr>frames = [10, 20, 30, 40], frame_count = 4\<rparr>],
      imread_log = [],
      caps = (\<lambda>h. fresh_capture None),
      next_cap = 0\<rparr>"

text \<open>The VideoLoader constructed in that world with a given offset, and the world after.\<close>

definition demo_video :: "int \<Rightarrow> nat VideoLoader \<times> nat world" where
  "demo_video off = projr (VideoLoader_init (demo_config off) demo_world)"

text \<open>The same with a video path that does not open.\<close>

definition demo_video_unopened :: "nat VideoLoader \<times> nat world" where
  "demo_video_unopened =
     projr (VideoLoader_init ((demo_config 0)\<lparr>cfg_video_path := Some ''missing.mp4''\<rparr>) demo_world)"

text \<open>The ImageLoader constructed in that world with a given offset and digit count.\<close>

definition demo_images :: "int \<Rightarrow> int \<Rightarrow> ImageLoader" where
  "demo_images off g =
     projr (ImageLoader_init ((demo_config off)\<lparr>cfg_image_path_digits := Some g\<rparr>) demo_world)"

section \<open>Properties of the VideoLoader\<close>

subsection \<open>Single operations\<close>

lemmas vl_defs = VideoLoader_has_images_def VideoLoader_read_def VideoLoader_end_def
  cap_isOpened_def cap_read_def cap_release_def Let_def split_def

lemma has_images_then_read:
  "image_read L \<Longrightarrow>
   VideoLoader_read (fst (snd (VideoLoader_has_images L w)))
     (snd (snd (VideoLoader_has_images L w)))
     = VideoLoader_read L w"
  by (simp add: vl_defs split: list.splits)

lemma read_sets_flag: "image_read (fst (snd (VideoLoader_read L w)))"
  by (simp add: vl_defs)

lemma read_keeps_cap: "cap (fst (snd (VideoLoader_read L w))) = cap L"
  by (simp add: vl_defs)

lemma read_grabs:
  "image_read L \<Longrightarrow>
   grabs (caps (snd (snd (VideoLoader_read L w))) (cap L)) = Suc (grabs (caps w (cap L)))"
  by (simp add: vl_defs split: list.splits)

lemma read_decodes:
  "image_read L \<Longrightarrow> opened (caps w (cap L)) \<Longrightarrow> pending (caps w (cap L)) = x # xs \<Longrightarrow>
   fst (VideoLoader_read L w) = Some x"
  by (simp add: vl_defs)

lemma read_index: "index (fst (snd (VideoLoader_read L w))) = index L + 1"
  by (simp add: vl_defs)

lemma read_no_frame:
  "image_read L \<Longrightarrow> \<not> opened (caps w (cap L)) \<or> pending (caps w (cap L)) = [] \<Longrightarrow>
   fst (VideoLoader_read L w) = None"
  by (auto simp add: vl_defs)

lemma has_images_false_read:
  "opened (caps w (cap L)) \<Longrightarrow> \<not> fst (VideoLoader_has_images L w) \<Longrightarrow>
   fst (VideoLoader_read (fst (snd (VideoLoader_has_images L w)))
          (snd (snd (VideoLoader_has_images L w)))) = None"
  by (simp add: vl_defs split: list.splits)

text \<open>What an operation leaves alone: the handle and the frame total of the loader, and
  every capture object other than the loader's own.\<close>

lemma has_images_frame:
  "cap (fst (snd (VideoLoader_has_images L w))) = cap L \<and>
   total_frames (fst (snd (VideoLoader_has_images L w))) = total_frames L \<and>
   (h \<noteq> cap L \<longrightarrow> caps (snd (snd (VideoLoader_has_images L w))) h = caps w h)"
  by (simp add: vl_defs split: list.splits)

lemma read_frame:
  "cap (fst (snd (VideoLoader_read L w))) = cap L \<and>
   total_frames (fst (snd (VideoLoader_read L w))) = total_frames L \<and>
   (h \<noteq> cap L \<longrightarrow> caps (snd (snd (VideoLoader_read L w))) h = caps w h)"
  by (simp add: vl_defs split: list.splits)

lemma end_frame:
  "h \<noteq> cap L \<Longrightarrow> caps (VideoLoader_end L w) h = caps w h"
  by (simp add: vl_defs)

lemma end_releases: "released (caps (VideoLoader_end L w) (cap L))"
  by (simp add: vl_defs)

lemma step_next_cap:
  "next_cap (snd (snd (VideoLoader_has_images L w))) = next_cap w \<and>
   next_cap (snd (snd (VideoLoader_read L w))) = next_cap w \<and>
   next_cap (snd (skip_step L w)) = next_cap w"
  by (simp add: skip_step_def vl_defs split: list.splits)

text \<open>A capture that is not open stays so, and an empty buffer stays empty with it.\<close>

lemma closed_has_images:
  "\<not> opened (caps w (cap L)) \<Longrightarrow> VideoLoader_has_images L w = (False, L, w)"
  by (simp add: vl_defs)

lemma closed_read:
  "\<not> opened (caps w (cap L)) \<Longrightarrow> image_buf L = None \<Longrightarrow>
   fst (VideoLoader_read L w) = None \<and>
   image_buf (fst (snd (VideoLoader_read L w))) = None \<and>
   cap (fst (snd (VideoLoader_read L w))) = cap L \<and>
   \<not> opened (caps (snd (snd (VideoLoader_read L w))) (cap L))"
  by (simp add: vl_defs)

lemma closed_end:
  "\<not> opened (caps (VideoLoader_end L w) (cap L))"
  by (simp add: vl_defs)

subsection \<open>The two call patterns\<close>

lemma patterns_agree:
  "image_read L \<Longrightarrow> has_images_read_n n L w = read_n n L w"
proof (induction n arbitrary: L w)
  case 0
  show ?case by simp
next
  case (Suc n)
  have flag: "image_read (fst (snd (VideoLoader_read L w)))"
    by (rule read_sets_flag)
  have step: "VideoLoader_read (fst (snd (VideoLoader_has_images L w)))
                (snd (snd (VideoLoader_has_images L w))) = VideoLoader_read L w"
    using Suc.prems by (rule has_images_then_read)
  show ?case
    using Suc.IH [OF flag] step by (simp add: split_def Let_def)
qed

lemma read_n_length: "length (fst (read_n n L w)) = n"
  by (induction n arbitrary: L w) (simp_all add: split_def Let_def)

lemma read_n_grabs:
  "image_read L \<Longrightarrow>
   grabs (caps (snd (snd (read_n n L w))) (cap L)) = grabs (caps w (cap L)) + n"
proof (induction n arbitrary: L w)
  case 0
  show ?case by simp
next
  case (Suc n)
  let ?L1 = "fst (snd (VideoLoader_read L w))"
  let ?w1 = "snd (snd (VideoLoader_read L w))"
  have "grabs (caps (snd (snd (read_n n ?L1 ?w1))) (cap ?L1)) = grabs (caps ?w1 (cap ?L1)) + n"
    by (rule Suc.IH) (rule read_sets_flag)
  then show ?case
    using read_grabs [OF Suc.prems, of w] by (simp add: split_def Let_def read_keeps_cap)
qed

subsection \<open>The skip loop\<close>

lemma skip_step_closed:
  "\<not> opened (caps w (cap L)) \<Longrightarrow> skip_step L w = (L, w)"
  by (simp add: skip_step_def vl_defs)

lemma skip_step_empty:
  "opened (caps w (cap L)) \<Longrightarrow> pending (caps w (cap L)) = [] \<Longrightarrow>
   skip_step L w =
     (L\<lparr>image_buf := None, image_read := False\<rparr>,
      w\<lparr>caps := (caps w)(cap L := (caps w (cap L))\<lparr>grabs := Suc (grabs (caps w (cap L)))\<rparr>)\<rparr>)"
  by (simp add: skip_step_def vl_defs)

lemma skip_step_frame:
  "opened (caps w (cap L)) \<Longrightarrow> pending (caps w (cap L)) = x # xs \<Longrightarrow>
   skip_step L w =
     (L\<lparr>index := index L + 1, image_buf := Some x, image_read := True\<rparr>,
      w\<lparr>caps := (caps w)(cap L := (caps w (cap L))\<lparr>pending := xs,
            grabs := Suc (grabs (caps w (cap L)))\<rparr>)\<rparr>)"
  by (simp add: skip_step_def vl_defs)

lemma skip_offset_closed:
  "\<not> opened (caps w (cap L)) \<Longrightarrow> skip_offset n L w = (L, w)"
  by (induction n) (simp_all add: skip_step_closed)

lemma skip_offset_opened:
  "opened (caps w (cap L)) \<Longrightarrow>
   cap (fst (skip_offset n L w)) = cap L \<and>
   opened (caps (snd (skip_offset n L w)) (cap L)) \<and>
   pending (caps (snd (skip_offset n L w)) (cap L)) = drop n (pending (caps w (cap L))) \<and>
   grabs (caps (snd (skip_offset n L w)) (cap L)) = grabs (caps w (cap L)) + n \<and>
   index (fst (skip_offset n L w)) = index L + int (min n (length (pending (caps w (cap L))))) \<and>
   (0 < n \<longrightarrow> image_read (fst (skip_offset n L w)) = (n \<le> length (pending (caps w (cap L)))))"
  (is "_ \<Longrightarrow> ?P n L w")
proof (induction n arbitrary: L w)
  case 0
  then show ?case by simp
next
  case (Suc n)
  show ?case
  proof (cases "pending (caps w (cap L))")
    case Nil
    let ?L1 = "L\<lparr>image_buf := None, image_read := False\<rparr>"
    let ?w1 = "w\<lparr>caps := (caps w)(cap L :=
                  (caps w (cap L))\<lparr>grabs := Suc (grabs (caps w (cap L)))\<rparr>)\<rparr>"
    have st: "skip_step L w = (?L1, ?w1)"
      using Suc.prems Nil by (rule skip_step_empty)
    have "opened (caps ?w1 (cap ?L1))" using Suc.prems by simp
    then have "?P n ?L1 ?w1" by (rule Suc.IH)
    then show ?thesis
      using Nil by (cases n) (simp_all add: st)
  next
    case (Cons x xs)
    let ?L1 = "L\<lparr>index := index L + 1, image_buf := Some x, image_read := True\<rparr>"
    let ?w1 = "w\<lparr>caps := (caps w)(cap L := (caps w (cap L))\<lparr>pending := xs,
            grabs := Suc (grabs (caps w (cap L)))\<rparr>)\<rparr>"
    have st: "skip_step L w = (?L1, ?w1)"
      using Suc.prems Cons by (rule skip_step_frame)
    have "opened (caps ?w1 (cap ?L1))" using Suc.prems by simp
    then have "?P n ?L1 ?w1" by (rule Suc.IH)
    then show ?thesis
      using Cons by (cases n) (simp_all add: st)
  qed
qed

lemma skip_step_frame_other:
  "cap (fst (skip_step L w)) = cap L \<and>
   total_frames (fst (skip_step L w)) = total_frames L \<and>
   (h \<noteq> cap L \<longrightarrow> caps (snd (skip_step L w)) h = caps w h)"
  by (simp add: skip_step_def vl_defs split: list.splits)

lemma skip_offset_frame:
  "cap (fst (skip_offset n L w)) = cap L \<and>
   total_frames (fst (skip_offset n L w)) = total_frames L \<and>
   (h \<noteq> cap L \<longrightarrow> caps (snd (skip_offset n L w)) h = caps w h)"
proof (induction n arbitrary: L w)
  case 0
  show ?case by simp
next
  case (Suc n)
  show ?case
    using Suc.IH [of "fst (skip_step L w)" "snd (skip_step L w)"] skip_step_frame_other [of L w h]
    by (simp add: split_def Let_def)
qed

lemma skip_offset_next_cap: "next_cap (snd (skip_offset n L w)) = next_cap w"
proof (induction n arbitrary: L w)
  case 0
  show ?case by simp
next
  case (Suc n)
  show ?case
    using Suc.IH [of "fst (skip_step L w)" "snd (skip_step L w)"] step_next_cap [of L w]
    by (simp add: split_def Let_def)
qed

subsection \<open>Sequences of operations\<close>

lemma run_ops_HasImages:
  "run_ops (HasImages # ops) L w =
     run_ops ops (fst (snd (VideoLoader_has_images L w))) (snd (snd (VideoLoader_has_images L w)))"
  by (simp add: split_def Let_def)

lemma run_ops_Read:
  "run_ops (Read # ops) L w =
     run_ops ops (fst (snd (VideoLoader_read L w))) (snd (snd (VideoLoader_read L w)))"
  by (simp add: split_def Let_def)

lemma run_ops_frame:
  "cap (fst (run_ops ops L w)) = cap L \<and>
   total_frames (fst (run_ops ops L w)) = total_frames L \<and>
   (h \<noteq> cap L \<longrightarrow> caps (snd (run_ops ops L w)) h = caps w h)"
proof (induction ops arbitrary: L w)
  case Nil
  show ?case by simp
next
  case (Cons a ops)
  show ?case
  proof (cases a)
    case HasImages
    show ?thesis
      unfolding HasImages run_ops_HasImages
      using Cons.IH [of "fst (snd (VideoLoader_has_images L w))"
                        "snd (snd (VideoLoader_has_images L w))"]
        has_images_frame [of L w h]
      by simp
  next
    case Read
    show ?thesis
      unfolding Read run_ops_Read
      using Cons.IH [of "fst (snd (VideoLoader_read L w))" "snd (snd (VideoLoader_read L w))"]
        read_frame [of L w h]
      by simp
  next
    case End
    show ?thesis
      using Cons.IH [of L "VideoLoader_end L w"] end_frame [of h L w]
      by (simp add: End)
  qed
qed

lemma closed_run_ops:
  "\<not> opened (caps w (cap L)) \<Longrightarrow> image_buf L = None \<Longrightarrow>
   \<not> opened (caps (snd (run_ops ops L w)) (cap (fst (run_ops ops L w)))) \<and>
   image_buf (fst (run_ops ops L w)) = None"
proof (induction ops arbitrary: L w)
  case Nil
  then show ?case by simp
next
  case (Cons a ops)
  show ?case
  proof (cases a)
    case HasImages
    show ?thesis
      using Cons by (simp add: HasImages closed_has_images)
  next
    case Read
    show ?thesis
      unfolding Read run_ops_Read
      using closed_read [OF Cons.prems] by (intro Cons.IH) simp_all
  next
    case End
    have "\<not> opened (caps (VideoLoader_end L w) (cap L))" by (rule closed_end)
    then show ?thesis
      using Cons.prems by (simp add: End Cons.IH)
  qed
qed

subsection \<open>The constructor\<close>

lemma dealloc_other:
  "h' \<noteq> h \<Longrightarrow> caps (cap_dealloc h w) h' = caps w h'"
  by (simp add: cap_dealloc_def cap_release_def)

lemma dealloc_self:
  "caps (cap_dealloc h w) h = (caps w h)\<lparr>opened := False, released := True\<rparr>"
  by (simp add: cap_dealloc_def cap_release_def)

lemma dealloc_next_cap: "next_cap (cap_dealloc h w) = next_cap w"
  by (simp add: cap_dealloc_def cap_release_def)

lemma step_released:
  "released (caps (snd (snd (VideoLoader_has_images L w))) h) = released (caps w h) \<and>
   released (caps (snd (snd (VideoLoader_read L w))) h) = released (caps w h) \<and>
   released (caps (snd (skip_step L w)) h) = released (caps w h)"
  by (simp add: skip_step_def vl_defs split: list.splits)

lemma skip_offset_released:
  "released (caps (snd (skip_offset n L w)) h) = released (caps w h)"
proof (induction n arbitrary: L w)
  case 0
  show ?case by simp
next
  case (Suc n)
  show ?case
    using Suc.IH [of "fst (skip_step L w)" "snd (skip_step L w)"] step_released [of L w h]
    by (simp add: split_def Let_def)
qed

lemma init_start:
  "cfg_image_number_offset cfg = Some off \<Longrightarrow> cfg_video_path cfg = Some p \<Longrightarrow>
   VideoLoader_init cfg w =
     Inr (fst (skip_offset (nat (off + 1))
            \<lparr>offset = off, index = 0, video_path = p, cap = next_cap w, image_buf = None,
             image_read = False,
             total_frames = py_int (count_prop (fresh_capture (video_files w p))) + 1\<rparr>
            (w\<lparr>caps := (caps w)(next_cap w := fresh_capture (video_files w p),
                              Suc (next_cap w) := fresh_capture (video_files w p)),
               next_cap := Suc (Suc (next_cap w))\<rparr>)),
          cap_dealloc (Suc (next_cap w))
            (snd (skip_offset (nat (off + 1))
            \<lparr>offset = off, index = 0, video_path = p, cap = next_cap w, image_buf = None,
             image_read = False,
             total_frames = py_int (count_prop (fresh_capture (video_files w p))) + 1\<rparr>
            (w\<lparr>caps := (caps w)(next_cap w := fresh_capture (video_files w p),
                              Suc (next_cap w) := fresh_capture (video_files w p)),
               next_cap := Suc (Suc (next_cap w))\<rparr>))))"
  by (simp add: VideoLoader_init_def VideoCapture_def cap_get_frame_count_def Let_def split_def)

lemma init_Inr:
  assumes "VideoLoader_init cfg w = Inr r"
  shows "\<exists>off p. cfg_image_number_offset cfg = Some off \<and> cfg_video_path cfg = Some p"
  using assms by (auto simp add: VideoLoader_init_def split: option.splits)

text \<open>The constructor is the skip loop from the start state, followed by the
  deallocation of the second capture.\<close>

lemma init_split:
  assumes init: "VideoLoader_init cfg w = Inr (L, w')"
    and off: "cfg_image_number_offset cfg = Some off"
    and path: "cfg_video_path cfg = Some p"
  shows "\<exists>w3. skip_offset (nat (off + 1))
            \<lparr>offset = off, index = 0, video_path = p, cap = next_cap w, image_buf = None,
             image_read = False,
             total_frames = py_int (count_prop (fresh_capture (video_files w p))) + 1\<rparr>
            (w\<lparr>caps := (caps w)(next_cap w := fresh_capture (video_files w p),
                              Suc (next_cap w) := fresh_capture (video_files w p)),
               next_cap := Suc (Suc (next_cap w))\<rparr>) = (L, w3) \<and>
          w' = cap_dealloc (Suc (next_cap w)) w3"
  using init init_start [OF off path, of w] by (auto simp add: prod_eq_iff)

lemma init_second_capture:
  assumes init: "VideoLoader_init cfg w = Inr (L, w')"
    and path: "cfg_video_path cfg = Some p"
  shows "cap L = next_cap w \<and> next_cap w' = Suc (Suc (next_cap w)) \<and>
         caps w' (Suc (next_cap w)) =
           (fresh_capture (video_files w p))\<lparr>opened := False, released := True\<rparr> \<and>
         \<not> released (caps w' (cap L)) \<and>
         total_frames L = py_int (count_prop (fresh_capture (video_files w p))) + 1"
proof -
  obtain off where off: "cfg_image_number_offset cfg = Some off"
    using init_Inr [OF init] by blast
  define L0 :: "'a VideoLoader" where
    "L0 = \<lparr>offset = off, index = 0, video_path = p, cap = next_cap w, image_buf = None,
           image_read = False,
           total_frames = py_int (count_prop (fresh_capture (video_files w p))) + 1\<rparr>"
  define w2 where
    "w2 = w\<lparr>caps := (caps w)(next_cap w := fresh_capture (video_files w p),
                            Suc (next_cap w) := fresh_capture (video_files w p)),
            next_cap := Suc (Suc (next_cap w))\<rparr>"
  obtain w3 where res: "skip_offset (nat (off + 1)) L0 w2 = (L, w3)"
    and wd: "w' = cap_dealloc (Suc (next_cap w)) w3"
    using init_split [OF init off path] unfolding L0_def w2_def by blast
  have ne: "Suc (next_cap w) \<noteq> cap L0" by (simp add: L0_def)
  have fr: "cap L = cap L0 \<and> total_frames L = total_frames L0 \<and>
            caps w3 (Suc (next_cap w)) = caps w2 (Suc (next_cap w))"
    using skip_offset_frame [of "nat (off + 1)" L0 w2 "Suc (next_cap w)"] ne
    by (simp add: res)
  have nc: "next_cap w3 = next_cap w2"
    using skip_offset_next_cap [of "nat (off + 1)" L0 w2] by (simp add: res)
  have rl: "released (caps w3 (cap L0)) = released (caps w2 (cap L0))"
    using skip_offset_released [of "nat (off + 1)" L0 w2 "cap L0"] by (simp add: res)
  have r0: "\<not> released (caps w2 (cap L0))"
    by (simp add: L0_def w2_def fresh_capture_def split: option.splits)
  have own: "caps w' (cap L) = caps w3 (cap L0)"
    using fr ne by (simp add: wd dealloc_other)
  show ?thesis
    using fr nc rl r0 own
    by (simp add: wd dealloc_self dealloc_next_cap) (simp add: L0_def w2_def)
qed

lemma init_unopened:
  assumes init: "VideoLoader_init cfg w = Inr (L, w')"
    and path: "cfg_video_path cfg = Some p"
    and video: "video_files w p = None"
  shows "\<not> opened (caps w' (cap L)) \<and> image_buf L = None"
proof -
  obtain off where off: "cfg_image_number_offset cfg = Some off"
    using init_Inr [OF init] by blast
  define L0 :: "'a VideoLoader" where
    "L0 = \<lparr>offset = off, index = 0, video_path = p, cap = next_cap w, image_buf = None,
           image_read = False,
           total_frames = py_int (count_prop (fresh_capture (video_files w p))) + 1\<rparr>"
  define w2 where
    "w2 = w\<lparr>caps := (caps w)(next_cap w := fresh_capture (video_files w p),
                            Suc (next_cap w) := fresh_capture (video_files w p)),
            next_cap := Suc (Suc (next_cap w))\<rparr>"
  obtain w3 where res: "skip_offset (nat (off + 1)) L0 w2 = (L, w3)"
    and wd: "w' = cap_dealloc (Suc (next_cap w)) w3"
    using init_split [OF init off path] unfolding L0_def w2_def by blast
  have cl: "\<not> opened (caps w2 (cap L0))"
    by (simp add: L0_def w2_def video fresh_capture_def)
  have same: "(L, w3) = (L0, w2)"
    using res skip_offset_closed [OF cl, of "nat (off + 1)"] by simp
  have "Suc (next_cap w) \<noteq> cap L" using same by (simp add: L0_def)
  then have "caps w' (cap L) = caps w3 (cap L)" by (simp add: wd dealloc_other)
  then show ?thesis using cl same by (simp add: L0_def)
qed

lemma init_over_video:
  assumes init: "VideoLoader_init cfg w = Inr (L, w')"
    and off: "cfg_image_number_offset cfg = Some off"
    and path: "cfg_video_path cfg = Some p"
    and video: "video_files w p = Some v"
  shows "opened (caps w' (cap L)) \<and>
         pending (caps w' (cap L)) = drop (nat (off + 1)) (frames v) \<and>
         grabs (caps w' (cap L)) = nat (off + 1) \<and>
         index L = int (min (nat (off + 1)) (length (frames v))) \<and>
         image_read L = (0 \<le> off \<and> off + 1 \<le> int (length (frames v)))"
proof -
  define c where "c = fresh_capture (video_files w p)"
  define L0 :: "'a VideoLoader" where
    "L0 = \<lparr>offset = off, index = 0, video_path = p, cap = next_cap w, image_buf = None,
           image_read = False, total_frames = py_int (count_prop c) + 1\<rparr>"
  define w2 where
    "w2 = w\<lparr>caps := (caps w)(next_cap w := c, Suc (next_cap w) := c),
            next_cap := Suc (Suc (next_cap w))\<rparr>"
  define k where "k = nat (off + 1)"
  obtain w3 where res: "skip_offset k L0 w2 = (L, w3)"
    and wd: "w' = cap_dealloc (Suc (next_cap w)) w3"
    using init_split [OF init off path] unfolding c_def L0_def w2_def k_def by blast
  have c0: "caps w2 (cap L0) = c" by (simp add: w2_def L0_def)
  have cv: "opened c \<and> pending c = frames v \<and> grabs c = 0"
    by (simp add: c_def video fresh_capture_def)
  have op: "opened (caps w2 (cap L0))" using c0 cv by simp
  note sk = skip_offset_opened [OF op, of k, unfolded res c0, simplified]
  have capL: "cap L = cap L0" using sk by simp
  have "Suc (next_cap w) \<noteq> cap L" using capL by (simp add: L0_def)
  then have own: "caps w' (cap L) = caps w3 (cap L)" by (simp add: wd dealloc_other)
  have opn: "opened (caps w' (cap L))" using sk capL own by simp
  have pend: "pending (caps w' (cap L)) = drop k (frames v)" using sk cv capL own by simp
  have grab: "grabs (caps w' (cap L)) = k" using sk cv capL own by simp
  have idx: "index L = int (min k (length (frames v)))" using sk cv by (simp add: L0_def)
  have flag: "image_read L = (0 \<le> off \<and> off + 1 \<le> int (length (frames v)))"
  proof (cases "0 < k")
    case True
    then have "image_read L = (k \<le> length (frames v))" using sk cv by simp
    then show ?thesis using True by (auto simp add: k_def)
  next
    case False
    then have "(L, w3) = (L0, w2)" using res by simp
    then show ?thesis using False by (auto simp add: L0_def k_def)
  qed
  show ?thesis using opn pend grab idx flag by (simp add: k_def)
qed

lemma demo_video_init: "VideoLoader_init (demo_config off) demo_world = Inr (demo_video off)"
  by (simp add: demo_video_def demo_config_def init_start)

subsection \<open>Claims about the VideoLoader\<close>

text \<open>
  C1, as amended. For a VideoLoader whose flag \<open>image_read\<close> is set (the buffered frame has
  been handed out), \<open>n\<close> rounds of \<^verbatim>\<open>has_images()\<close> then \<^verbatim>\<open>read()\<close> and \<open>n\<close> calls of
  \<^verbatim>\<open>read()\<close> alone return the same values, leave the same loader and the same world, and
  each invoke the decoder's \<^verbatim>\<open>read()\<close> exactly \<open>n\<close> times: one decode per value returned.
  The flag is set after every \<^verbatim>\<open>read()\<close>; over a video that opens, the constructor leaves
  it set exactly when \<open>0 \<le> offset\<close> and the stream has at least \<open>offset + 1\<close> frames.
\<close>


theorem has_images_read_same_as_read:
  "(image_read L \<longrightarrow>
      has_images_read_n n L w = read_n n L w \<and>
      length (fst (read_n n L w)) = n \<and>
      grabs (caps (snd (snd (has_images_read_n n L w))) (cap L)) = grabs (caps w (cap L)) + n \<and>
      grabs (caps (snd (snd (read_n n L w))) (cap L)) = grabs (caps w (cap L)) + n) \<and>
   (VideoLoader_init cfg w0 = Inr (L0, w1) \<and> cfg_image_number_offset cfg = Some off \<and>
    cfg_video_path cfg = Some p \<and> video_files w0 p = Some v \<longrightarrow>
      image_read L0 = (0 \<le> off \<and> off + 1 \<le> int (length (frames v))))"
proof (intro conjI impI)
  assume flag: "image_read L"
  show "has_images_read_n n L w = read_n n L w"
    using flag by (rule patterns_agree)
  then show "grabs (caps (snd (snd (has_images_read_n n L w))) (cap L))
               = grabs (caps w (cap L)) + n"
    using flag by (simp add: read_n_grabs)
  show "grabs (caps (snd (snd (read_n n L w))) (cap L)) = grabs (caps w (cap L)) + n"
    using flag by (rule read_n_grabs)
next
  show "length (fst (read_n n L w)) = n" by (rule read_n_length)
next
  assume "VideoLoader_init cfg w0 = Inr (L0, w1) \<and> cfg_image_number_offset cfg = Some off \<and>
    cfg_video_path cfg = Some p \<and> video_files w0 p = Some v"
  then show "image_read L0 = (0 \<le> off \<and> off + 1 \<le> int (length (frames v)))"
    using init_over_video [of cfg w0 L0 w1 off p v] by blast
qed

text \<open>
  The loader constructed with offset 1 over the four-frame clip has the flag set; two more
  reads give the frames 30 and 40.
\<close>

theorem has_images_read_same_as_read_witness:
  "VideoLoader_init (demo_config 1) demo_world = Inr (demo_video 1) \<and>
   image_read (fst (demo_video 1)) \<and>
   has_images_read_n 2 (fst (demo_video 1)) (snd (demo_video 1)) =
     read_n 2 (fst (demo_video 1)) (snd (demo_video 1)) \<and>
   fst (read_n 2 (fst (demo_video 1)) (snd (demo_video 1))) = [Some 30, Some 40] \<and>
   grabs (caps (snd (snd (read_n 2 (fst (demo_video 1)) (snd (demo_video 1)))))
            (cap (fst (demo_video 1)))) =
     grabs (caps (snd (demo_video 1)) (cap (fst (demo_video 1)))) + 2"
proof -
  have init: "VideoLoader_init (demo_config 1) demo_world
                = Inr (fst (demo_video 1), snd (demo_video 1))"
    by (simp add: demo_video_init)
  have off: "cfg_image_number_offset (demo_config 1) = Some 1"
    and path: "cfg_video_path (demo_config 1) = Some ''clip.mp4''"
    by (simp_all add: demo_config_def)
  have video: "video_files demo_world ''clip.mp4''
                 = Some \<lparr>frames = [10, 20, 30, 40], frame_count = 4\<rparr>"
    by (simp add: demo_world_def)
  note t = has_images_read_same_as_read
             [of "fst (demo_video 1)" 2 "snd (demo_video 1)" "demo_config 1" demo_world
                 "fst (demo_video 1)" "snd (demo_video 1)" 1 "''clip.mp4''"
                 "\<lparr>frames = [10, 20, 30, 40], frame_count = 4\<rparr>"]
  have flag: "image_read (fst (demo_video 1))"
    using t init off path video by simp
  have out: "fst (read_n 2 (fst (demo_video 1)) (snd (demo_video 1))) = [Some 30, Some 40]"
    by code_simp
  show ?thesis
    using t flag out by (simp add: demo_video_init)
qed

text \<open>
  C1 as stated fails for a loader whose flag is not set. With offset \<open>-1\<close> the skip loop
  does not run, and the constructor leaves the flag unset over an empty buffer: the first
  \<^verbatim>\<open>read()\<close> alone returns \<^verbatim>\<open>None\<close> without decoding, so that two reads return
  \<^verbatim>\<open>None\<close> and frame 10 with one decode, where two rounds of \<^verbatim>\<open>has_images()\<close> then
  \<^verbatim>\<open>read()\<close> return the frames 10 and 20. With offset 5 over the four frames the skip
  loop ends on a failed probe, which leaves the flag unset as well: two reads alone then
  cost one decode, two rounds of probe and read cost two.
\<close>

theorem read_alone_differs_counterexample:
  "VideoLoader_init (demo_config (- 1)) demo_world = Inr (demo_video (- 1)) \<and>
   fst (read_n 2 (fst (demo_video (- 1))) (snd (demo_video (- 1)))) = [None, Some 10] \<and>
   fst (has_images_read_n 2 (fst (demo_video (- 1))) (snd (demo_video (- 1)))) =
     [Some 10, Some 20] \<and>
   grabs (caps (snd (snd (read_n 2 (fst (demo_video (- 1))) (snd (demo_video (- 1))))))
            (cap (fst (demo_video (- 1))))) = 1 \<and>
   VideoLoader_init (demo_config 5) demo_world = Inr (demo_video 5) \<and>
   grabs (caps (snd (demo_video 5)) (cap (fst (demo_video 5)))) = 6 \<and>
   grabs (caps (snd (snd (read_n 2 (fst (demo_video 5)) (snd (demo_video 5)))))
            (cap (fst (demo_video 5)))) = 7 \<and>
   grabs (caps (snd (snd (has_images_read_n 2 (fst (demo_video 5)) (snd (demo_video 5)))))
            (cap (fst (demo_video 5)))) = 8"
proof -
  have "fst (read_n 2 (fst (demo_video (- 1))) (snd (demo_video (- 1)))) = [None, Some 10]"
    by code_simp
  moreover have "fst (has_images_read_n 2 (fst (demo_video (- 1))) (snd (demo_video (- 1)))) =
     [Some 10, Some 20]"
    by code_simp
  moreover have "grabs (caps (snd (snd (read_n 2 (fst (demo_video (- 1)))
            (snd (demo_video (- 1)))))) (cap (fst (demo_video (- 1))))) = 1"
    by code_simp
  moreover have "grabs (caps (snd (demo_video 5)) (cap (fst (demo_video 5)))) = 6"
    by code_simp
  moreover have "grabs (caps (snd (snd (read_n 2 (fst (demo_video 5)) (snd (demo_video 5)))))
            (cap (fst (demo_video 5)))) = 7"
    by code_simp
  moreover have "grabs (caps (snd (snd (has_images_read_n 2 (fst (demo_video 5))
            (snd (demo_video 5))))) (cap (fst (demo_video 5)))) = 8"
    by code_simp
  ultimately show ?thesis by (simp add: demo_video_init)
qed

text \<open>
  Where C2 holds. Over a video that opens, the constructor with offset \<open>off\<close> leaves the
  capture at the frames after the first \<open>off + 1\<close> (all of them when the stream is shorter,
  none when \<open>off + 1 \<le> 0\<close>), after that many decoder invocations, with the index at the
  number of frames consumed. When \<open>0 \<le> off\<close> and the stream has a frame \<open>off + 2\<close>, the first
  \<^verbatim>\<open>read()\<close> after the constructor returns that frame.
\<close>

theorem constructor_skips_offset_plus_one:
  assumes init: "VideoLoader_init cfg w = Inr (L, w')"
    and off: "cfg_image_number_offset cfg = Some off"
    and path: "cfg_video_path cfg = Some p"
    and video: "video_files w p = Some v"
  shows "pending (caps w' (cap L)) = drop (nat (off + 1)) (frames v) \<and>
         grabs (caps w' (cap L)) = nat (off + 1) \<and>
         index L = int (min (nat (off + 1)) (length (frames v))) \<and>
         (0 \<le> off \<and> off + 2 \<le> int (length (frames v)) \<longrightarrow>
            fst (VideoLoader_read L w') = Some (frames v ! nat (off + 1)))"
proof -
  note iv = init_over_video [OF init off path video]
  have rd: "fst (VideoLoader_read L w') = Some (frames v ! nat (off + 1))"
    if "0 \<le> off" "off + 2 \<le> int (length (frames v))"
  proof -
    have k: "nat (off + 1) < length (frames v)" using that by simp
    have flag: "image_read L" using iv that by simp
    have opn: "opened (caps w' (cap L))" using iv by simp
    have "pending (caps w' (cap L))
            = frames v ! nat (off + 1) # drop (Suc (nat (off + 1))) (frames v)"
      using iv k by (simp add: Cons_nth_drop_Suc)
    with flag opn show ?thesis by (rule read_decodes)
  qed
  show ?thesis using iv rd by simp
qed

text \<open>
  With offset 1 over the clip of frames 10, 20, 30, 40 the constructor consumes two frames
  and the next read returns the third.
\<close>

theorem constructor_skips_offset_plus_one_witness:
  "VideoLoader_init (demo_config 1) demo_world = Inr (demo_video 1) \<and>
   pending (caps (snd (demo_video 1)) (cap (fst (demo_video 1)))) = [30, 40] \<and>
   grabs (caps (snd (demo_video 1)) (cap (fst (demo_video 1)))) = 2 \<and>
   index (fst (demo_video 1)) = 2 \<and>
   fst (VideoLoader_read (fst (demo_video 1)) (snd (demo_video 1))) = Some 30"
proof -
  have init: "VideoLoader_init (demo_config 1) demo_world
                = Inr (fst (demo_video 1), snd (demo_video 1))"
    by (simp add: demo_video_init)
  have off: "cfg_image_number_offset (demo_config 1) = Some 1"
    and path: "cfg_video_path (demo_config 1) = Some ''clip.mp4''"
    by (simp_all add: demo_config_def)
  have video: "video_files demo_world ''clip.mp4''
                 = Some \<lparr>frames = [10, 20, 30, 40], frame_count = 4\<rparr>"
    by (simp add: demo_world_def)
  show ?thesis
    using constructor_skips_offset_plus_one [OF init off path video]
    by (simp add: demo_video_init numeral_2_eq_2)
qed

text \<open>
  C2. The code misses the claim at offset \<open>-1\<close>: the constructor consumes \<open>off + 1 = 0\<close>
  frames and all four are still pending, as the claim says, but the first \<^verbatim>\<open>read()\<close>
  returns \<^verbatim>\<open>None\<close> instead of frame \<open>off + 2 = 1\<close> of the stream. The flag
  \<open>image_read\<close> starts unset over an empty buffer, and only the skip loop, which does not run
  here, sets it.
\<close>

theorem first_read_after_empty_skip_returns_none:
  "VideoLoader_init (demo_config (- 1)) demo_world = Inr (demo_video (- 1)) \<and>
   pending (caps (snd (demo_video (- 1))) (cap (fst (demo_video (- 1))))) = [10, 20, 30, 40] \<and>
   fst (VideoLoader_read (fst (demo_video (- 1))) (snd (demo_video (- 1)))) = None"
proof -
  have "pending (caps (snd (demo_video (- 1))) (cap (fst (demo_video (- 1))))) = [10, 20, 30, 40]"
    by code_simp
  moreover have "fst (VideoLoader_read (fst (demo_video (- 1))) (snd (demo_video (- 1)))) = None"
    by code_simp
  ultimately show ?thesis by (simp add: demo_video_init)
qed

text \<open>
  C6. The \<open>total_frames\<close> of a constructed VideoLoader is the frame count that the decoder
  reports on the second capture object, converted by \<^verbatim>\<open>int()\<close>, plus one; for a whole
  count \<open>k\<close> it is \<open>k + 1\<close>. No later operation changes it. Over a video that opens it is
  the count of that video plus one.
\<close>

theorem total_frames_is_count_plus_one:
  assumes init: "VideoLoader_init cfg w = Inr (L, w')"
  shows "total_frames L = py_int (cap_get_frame_count (Suc (next_cap w)) w') + 1 \<and>
         (cap_get_frame_count (Suc (next_cap w)) w' = of_int k \<longrightarrow> total_frames L = k + 1) \<and>
         total_frames (fst (run_ops ops L w')) = total_frames L \<and>
         (cfg_video_path cfg = Some p \<and> video_files w p = Some v \<longrightarrow>
            total_frames L = py_int (frame_count v) + 1)"
proof -
  obtain q where path: "cfg_video_path cfg = Some q"
    using init_Inr [OF init] by blast
  note sc = init_second_capture [OF init path]
  have tf: "total_frames L = py_int (cap_get_frame_count (Suc (next_cap w)) w') + 1"
    using sc by (simp add: cap_get_frame_count_def)
  have "py_int (of_int k) = k" by (simp add: py_int_def)
  moreover have "total_frames L = py_int (frame_count v) + 1"
    if "cfg_video_path cfg = Some p" "video_files w p = Some v"
    using sc that path by (simp add: fresh_capture_def)
  ultimately show ?thesis
    using tf run_ops_frame [of ops L w'] by auto
qed

text \<open>The clip reports four frames, and the loader over it has a total of five.\<close>

theorem total_frames_is_count_plus_one_witness:
  "VideoLoader_init (demo_config 1) demo_world = Inr (demo_video 1) \<and>
   cap_get_frame_count (Suc (next_cap demo_world)) (snd (demo_video 1)) = of_int 4 \<and>
   cfg_video_path (demo_config 1) = Some ''clip.mp4'' \<and>
   video_files demo_world ''clip.mp4'' = Some \<lparr>frames = [10, 20, 30, 40], frame_count = 4\<rparr> \<and>
   total_frames (fst (demo_video 1)) = 5"
proof -
  have init: "VideoLoader_init (demo_config 1) demo_world
                = Inr (fst (demo_video 1), snd (demo_video 1))"
    by (simp add: demo_video_init)
  have path: "cfg_video_path (demo_config 1) = Some ''clip.mp4''"
    by (simp add: demo_config_def)
  have video: "video_files demo_world ''clip.mp4''
                 = Some \<lparr>frames = [10, 20, 30, 40], frame_count = 4\<rparr>"
    by (simp add: demo_world_def)
  have cnt: "cap_get_frame_count (Suc (next_cap demo_world)) (snd (demo_video 1)) = of_int 4"
    using init_second_capture [OF init path]
    by (simp add: cap_get_frame_count_def) (simp add: demo_world_def fresh_capture_def)
  show ?thesis
    using total_frames_is_count_plus_one
            [OF init, of 4 "[]" "''clip.mp4''" "\<lparr>frames = [10, 20, 30, 40], frame_count = 4\<rparr>"]
          cnt path video
    by (simp add: demo_video_init)
qed

text \<open>
  C9. \<^verbatim>\<open>VideoLoader.read()\<close> has no failing branch: it is a total function that advances
  the index by exactly one. It returns \<^verbatim>\<open>None\<close> when it has to decode and the capture is
  closed or exhausted; when \<^verbatim>\<open>has_images()\<close> has just returned false on an exhausted
  stream; and, for a loader whose video did not open, after any sequence of operations
  (where \<^verbatim>\<open>has_images()\<close> is false as well).
\<close>

theorem video_read_returns_none_without_frame:
  "index (fst (snd (VideoLoader_read L w))) = index L + 1 \<and>
   (image_read L \<and> (\<not> opened (caps w (cap L)) \<or> pending (caps w (cap L)) = []) \<longrightarrow>
      fst (VideoLoader_read L w) = None) \<and>
   (opened (caps w (cap L)) \<and> \<not> fst (VideoLoader_has_images L w) \<longrightarrow>
      fst (VideoLoader_read (fst (snd (VideoLoader_has_images L w)))
             (snd (snd (VideoLoader_has_images L w)))) = None) \<and>
   (VideoLoader_init cfg w0 = Inr (L0, w1) \<and> cfg_video_path cfg = Some p \<and>
    video_files w0 p = None \<longrightarrow>
      \<not> fst (VideoLoader_has_images (fst (run_ops ops L0 w1)) (snd (run_ops ops L0 w1))) \<and>
      fst (VideoLoader_read (fst (run_ops ops L0 w1)) (snd (run_ops ops L0 w1))) = None)"
proof (intro conjI impI)
  show "index (fst (snd (VideoLoader_read L w))) = index L + 1"
    by (rule read_index)
next
  assume "image_read L \<and> (\<not> opened (caps w (cap L)) \<or> pending (caps w (cap L)) = [])"
  then show "fst (VideoLoader_read L w) = None"
    using read_no_frame [of L w] by blast
next
  assume "opened (caps w (cap L)) \<and> \<not> fst (VideoLoader_has_images L w)"
  then show "fst (VideoLoader_read (fst (snd (VideoLoader_has_images L w)))
             (snd (snd (VideoLoader_has_images L w)))) = None"
    using has_images_false_read [of w L] by blast
next
  assume a: "VideoLoader_init cfg w0 = Inr (L0, w1) \<and> cfg_video_path cfg = Some p \<and>
    video_files w0 p = None"
  then have "\<not> opened (caps w1 (cap L0)) \<and> image_buf L0 = None"
    using init_unopened [of cfg w0 L0 w1 p] by blast
  then have inv: "\<not> opened (caps (snd (run_ops ops L0 w1)) (cap (fst (run_ops ops L0 w1)))) \<and>
      image_buf (fst (run_ops ops L0 w1)) = None"
    using closed_run_ops [of w1 L0 ops] by blast
  show "\<not> fst (VideoLoader_has_images (fst (run_ops ops L0 w1)) (snd (run_ops ops L0 w1)))"
    using inv by (simp add: closed_has_images)
  show "fst (VideoLoader_read (fst (run_ops ops L0 w1)) (snd (run_ops ops L0 w1))) = None"
    using inv closed_read [of "snd (run_ops ops L0 w1)" "fst (run_ops ops L0 w1)"] by blast
qed

text \<open>
  With offset 3 the constructor consumes all four frames of the clip: the capture is open
  and exhausted. The loader over \<^verbatim>\<open>missing.mp4\<close> has a capture that never opened.
\<close>

theorem video_read_returns_none_without_frame_witness:
  "image_read (fst (demo_video 3)) \<and>
   opened (caps (snd (demo_video 3)) (cap (fst (demo_video 3)))) \<and>
   pending (caps (snd (demo_video 3)) (cap (fst (demo_video 3)))) = [] \<and>
   \<not> fst (VideoLoader_has_images (fst (demo_video 3)) (snd (demo_video 3))) \<and>
   VideoLoader_init ((demo_config 0)\<lparr>cfg_video_path := Some ''missing.mp4''\<rparr>) demo_world
     = Inr demo_video_unopened \<and>
   video_files demo_world ''missing.mp4'' = None \<and>
   index (fst (snd (VideoLoader_read (fst (demo_video 3)) (snd (demo_video 3)))))
     = index (fst (demo_video 3)) + 1 \<and>
   fst (VideoLoader_read (fst (demo_video 3)) (snd (demo_video 3))) = None \<and>
   fst (VideoLoader_read
          (fst (snd (VideoLoader_has_images (fst (demo_video 3)) (snd (demo_video 3)))))
          (snd (snd (VideoLoader_has_images (fst (demo_video 3)) (snd (demo_video 3)))))) = None \<and>
   fst (VideoLoader_read
          (fst (run_ops [Read, HasImages, End] (fst demo_video_unopened) (snd demo_video_unopened)))
          (snd (run_ops [Read, HasImages, End] (fst demo_video_unopened) (snd demo_video_unopened))))
     = None"
proof -
  have h1: "image_read (fst (demo_video 3))" by code_simp
  have h2: "opened (caps (snd (demo_video 3)) (cap (fst (demo_video 3))))" by code_simp
  have h3: "pending (caps (snd (demo_video 3)) (cap (fst (demo_video 3)))) = []" by code_simp
  have h4: "\<not> fst (VideoLoader_has_images (fst (demo_video 3)) (snd (demo_video 3)))"
    by code_simp
  have h5: "VideoLoader_init ((demo_config 0)\<lparr>cfg_video_path := Some ''missing.mp4''\<rparr>)
              demo_world = Inr (fst demo_video_unopened, snd demo_video_unopened)"
    by (simp add: demo_video_unopened_def demo_config_def init_start)
  have h6: "cfg_video_path ((demo_config 0)\<lparr>cfg_video_path := Some ''missing.mp4''\<rparr>)
              = Some ''missing.mp4''"
    by simp
  have h7: "video_files demo_world ''missing.mp4'' = None"
    by (simp add: demo_world_def)
  show ?thesis
    using h1 h2 h3 h4 h5 h6 h7
      video_read_returns_none_without_frame
        [of "fst (demo_video 3)" "snd (demo_video 3)"
            "(demo_config 0)\<lparr>cfg_video_path := Some ''missing.mp4''\<rparr>" demo_world
            "fst demo_video_unopened" "snd demo_video_unopened" "''missing.mp4''"
            "[Read, HasImages, End]"]
    by simp
qed

text \<open>
  C10, as amended. The constructor creates two capture objects on the video path. The
  loader keeps the first. The second, created to ask for the frame count, is never read
  from and is referenced by a local variable only: when the constructor returns it is
  deallocated and thereby released, while the loader's own capture is not.
  No later \<^verbatim>\<open>has_images()\<close>, \<^verbatim>\<open>read()\<close> or \<^verbatim>\<open>end()\<close> touches the second object, and
  \<^verbatim>\<open>end()\<close> releases the loader's own capture only.
\<close>

theorem second_capture_released_at_return:
  assumes init: "VideoLoader_init cfg w = Inr (L, w')"
    and path: "cfg_video_path cfg = Some p"
  shows "cap L = next_cap w \<and> next_cap w' = Suc (Suc (next_cap w)) \<and>
         caps w' (Suc (next_cap w)) =
           (fresh_capture (video_files w p))\<lparr>opened := False, released := True\<rparr> \<and>
         grabs (caps w' (Suc (next_cap w))) = 0 \<and>
         released (caps w' (Suc (next_cap w))) \<and>
         \<not> released (caps w' (cap L)) \<and>
         caps (snd (run_ops ops L w')) (Suc (next_cap w)) = caps w' (Suc (next_cap w)) \<and>
         caps (VideoLoader_end L w') (Suc (next_cap w)) = caps w' (Suc (next_cap w)) \<and>
         released (caps (VideoLoader_end L w') (cap L))"
proof -
  note sc = init_second_capture [OF init path]
  have ne: "Suc (next_cap w) \<noteq> cap L" using sc by simp
  have fr: "grabs (fresh_capture (video_files w p)) = 0"
    by (simp add: fresh_capture_def split: option.splits)
  have ops: "caps (snd (run_ops ops L w')) (Suc (next_cap w)) = caps w' (Suc (next_cap w))"
    using run_ops_frame [of ops L w' "Suc (next_cap w)"] ne by simp
  have en: "caps (VideoLoader_end L w') (Suc (next_cap w)) = caps w' (Suc (next_cap w))"
    using end_frame [OF ne, of w'] by simp
  have gr: "grabs (caps w' (Suc (next_cap w))) = 0" using sc fr by simp
  have rl: "released (caps w' (Suc (next_cap w)))" using sc by simp
  show ?thesis
    using sc ops en gr rl end_releases [of L w'] by blast
qed

text \<open>
  After a probe, a read, \<^verbatim>\<open>end()\<close> and another probe on the loader over the clip, the
  second capture object is as the constructor left it: closed, released, never read from.
\<close>

theorem second_capture_released_at_return_witness:
  "VideoLoader_init (demo_config 1) demo_world = Inr (demo_video 1) \<and>
   cfg_video_path (demo_config 1) = Some ''clip.mp4'' \<and>
   cap (fst (demo_video 1)) = 0 \<and>
   caps (snd (run_ops [HasImages, Read, End, HasImages]
                (fst (demo_video 1)) (snd (demo_video 1)))) 1 =
     \<lparr>opened = False, pending = [10, 20, 30, 40], count_prop = 4, grabs = 0,
      released = True\<rparr>"
proof -
  have init: "VideoLoader_init (demo_config 1) demo_world
                = Inr (fst (demo_video 1), snd (demo_video 1))"
    by (simp add: demo_video_init)
  have path: "cfg_video_path (demo_config 1) = Some ''clip.mp4''"
    by (simp add: demo_config_def)
  show ?thesis
    using second_capture_released_at_return
            [OF init path, of "[HasImages, Read, End, HasImages]"] path
    by (simp add: demo_video_init) (simp add: demo_world_def fresh_capture_def)
qed

text \<open>
  C10 as stated fails: the second capture does not stay open. Right after the
  constructor, before any operation on the loader, the second capture object of the loader
  over the clip is closed and released, and only the loader's own capture is open.
\<close>

theorem second_capture_closed_after_constructor_counterexample:
  "VideoLoader_init (demo_config 1) demo_world = Inr (demo_video 1) \<and>
   cap (fst (demo_video 1)) = 0 \<and>
   opened (caps (snd (demo_video 1)) 0) \<and>
   \<not> released (caps (snd (demo_video 1)) 0) \<and>
   \<not> opened (caps (snd (demo_video 1)) 1) \<and>
   released (caps (snd (demo_video 1)) 1)"
proof -
  have "cap (fst (demo_video 1)) = 0" by code_simp
  moreover have "opened (caps (snd (demo_video 1)) 0)" by code_simp
  moreover have "\<not> released (caps (snd (demo_video 1)) 0)" by code_simp
  moreover have "\<not> opened (caps (snd (demo_video 1)) 1)" by code_simp
  moreover have "released (caps (snd (demo_video 1)) 1)" by code_simp
  ultimately show ?thesis by (simp add: demo_video_init)
qed

section \<open>Properties of the ImageLoader\<close>

subsection \<open>Decimal numerals and zero padding\<close>

declare decimal.simps [simp del]

lemma digit_cases:
  "d < 10 \<Longrightarrow> d = 0 \<or> d = 1 \<or> d = 2 \<or> d = 3 \<or> d = 4 \<or> d = 5 \<or> d = 6 \<or> d = 7 \<or> d = 8 \<or> d = (9::nat)"
  by arith

lemma digit_char_digit: "d < 10 \<Longrightarrow> digit_char d \<in> set ''0123456789''"
  using digit_cases [of d] by (auto simp add: digit_char_def)

lemma digit_value_char: "d < 10 \<Longrightarrow> digit_value (digit_char d) = d"
  using digit_cases [of d] by (auto simp add: digit_char_def digit_value_def)

lemma decimal_digits: "set (decimal n) \<subseteq> set ''0123456789''"
proof (induction n rule: decimal.induct)
  case (1 n)
  show ?case
  proof (cases "n < 10")
    case True
    then show ?thesis
      using digit_char_digit [of n] by (simp add: decimal.simps [of n])
  next
    case False
    have "n mod 10 < 10" by simp
    then have "digit_char (n mod 10) \<in> set ''0123456789''" by (rule digit_char_digit)
    then show ?thesis
      using False 1 by (simp add: decimal.simps [of n])
  qed
qed

lemma decimal_value_snoc:
  "decimal_value (s @ [c]) = 10 * decimal_value s + digit_value c"
  by (simp add: decimal_value_def)

lemma decimal_value_decimal: "decimal_value (decimal n) = n"
proof (induction n rule: decimal.induct)
  case (1 n)
  show ?case
  proof (cases "n < 10")
    case True
    then show ?thesis
      by (simp add: decimal.simps [of n] decimal_value_def digit_value_char)
  next
    case False
    have "digit_value (digit_char (n mod 10)) = n mod 10"
      by (rule digit_value_char) simp
    then show ?thesis
      using False 1 by (simp add: decimal.simps [of n] decimal_value_snoc)
  qed
qed

lemma decimal_value_zeros:
  "decimal_value (replicate k (CHR ''0'') @ s) = decimal_value s"
proof -
  have "foldl (\<lambda>a c. 10 * a + digit_value c) 0 (replicate k (CHR ''0'')) = 0"
    by (induction k) (simp_all add: digit_value_def)
  then show ?thesis by (simp add: decimal_value_def)
qed

lemma decimal_nonempty: "decimal n \<noteq> []"
  by (simp add: decimal.simps [of n])

lemma decimal_length: "0 < W \<Longrightarrow> (length (decimal n) \<le> W) = (n < 10 ^ W)"
proof (induction n arbitrary: W rule: decimal.induct)
  case (1 n)
  show ?case
  proof (cases "n < 10")
    case True
    have "(10::nat) ^ 1 \<le> 10 ^ W" using "1.prems" by (intro power_increasing) simp_all
    then have "n < 10 ^ W" using True by simp
    then show ?thesis using True "1.prems" by (simp add: decimal.simps [of n])
  next
    case False
    obtain V where W: "W = Suc V" using "1.prems" by (cases W) simp_all
    show ?thesis
    proof (cases V)
      case 0
      then show ?thesis using False W by (simp add: decimal.simps [of n] decimal_nonempty)
    next
      case (Suc U)
      have "(length (decimal (n div 10)) \<le> V) = (n div 10 < 10 ^ V)"
        using False Suc by (intro "1.IH") simp_all
      moreover have "(n div 10 < 10 ^ V) = (n < 10 ^ W)"
        by (simp add: W div_less_iff_less_mult mult.commute)
      ultimately show ?thesis using False W by (simp add: decimal.simps [of n])
    qed
  qed
qed

lemma format_fits:
  assumes "0 < W" "0 \<le> n" "n < 10 ^ W"
  shows "length (format_zero_padded W n) = W \<and>
         set (format_zero_padded W n) \<subseteq> set ''0123456789'' \<and>
         decimal_value (format_zero_padded W n) = nat n"
proof -
  have "nat n < 10 ^ W" using assms by (simp add: nat_less_iff)
  then have len: "length (decimal (nat n)) \<le> W"
    using decimal_length [OF assms(1), of "nat n"] by simp
  have fmt: "format_zero_padded W n = replicate (W - length (decimal (nat n))) (CHR ''0'') @ decimal (nat n)"
    using assms by (simp add: format_zero_padded_def zfill_def)
  show ?thesis
    using len decimal_digits [of "nat n"]
    by (auto simp add: fmt decimal_value_zeros decimal_value_decimal)
qed

lemma format_overflow:
  assumes "0 < W" "10 ^ W \<le> n"
  shows "format_zero_padded W n = decimal (nat n) \<and> W < length (format_zero_padded W n)"
proof -
  have n0: "0 \<le> n" using assms(2) by (meson order_trans zero_le_numeral zero_le_power)
  have "\<not> nat n < 10 ^ W" using assms(2) n0 by (simp add: nat_less_iff)
  then have len: "W < length (decimal (nat n))"
    using decimal_length [OF assms(1), of "nat n"] by simp
  then show ?thesis using n0 by (simp add: format_zero_padded_def zfill_def)
qed

subsection \<open>Paths and reads\<close>

lemma pad_width_pos: "0 < pad_width g"
  by (simp add: pad_width_def)

lemma ImageLoader_path_numbered: "ImageLoader_path L i = numbered_path L (i + offset L)"
  by (simp add: ImageLoader_path_def numbered_path_def pad_width_def Let_def)

lemma ImageLoader_path_index: "ImageLoader_path (L\<lparr>index := j\<rparr>) i = ImageLoader_path L i"
  by (simp add: ImageLoader_path_def Let_def)

lemma ImageLoader_read_eq:
  "ImageLoader_read L w =
     (image_files w (ImageLoader_path L (index L + 1)),
      L\<lparr>index := index L + 1\<rparr>,
      w\<lparr>imread_log := imread_log w @ [ImageLoader_path L (index L + 1)]\<rparr>)"
  by (simp add: ImageLoader_read_def imread_def ImageLoader_path_index)

lemma ImageLoader_read_n_eq:
  "ImageLoader_read_n n L w =
     (map (\<lambda>k. image_files w (ImageLoader_path L (index L + 1 + int k))) [0..<n],
      L\<lparr>index := index L + int n\<rparr>,
      w\<lparr>imread_log := imread_log w @ map (\<lambda>k. ImageLoader_path L (index L + 1 + int k)) [0..<n]\<rparr>)"
proof (induction n arbitrary: L w)
  case 0
  show ?case by simp
next
  case (Suc n)
  have shift: "[0..<Suc n] = 0 # map Suc [0..<n]"
    by (simp add: upt_conv_Cons map_Suc_upt del: upt_Suc)
  show ?case
    unfolding shift
    by (simp add: ImageLoader_read_eq Suc.IH ImageLoader_path_index comp_def add.assoc
        add.commute add.left_commute del: upt_Suc)
qed

lemma upt_from_one: "map f [1..<Suc n] = map (\<lambda>k. f (Suc k)) [0..<n]"
proof -
  have "[1..<Suc n] = map Suc [0..<n]" by (simp add: map_Suc_upt del: upt_Suc)
  then show ?thesis by (simp add: comp_def del: upt_Suc)
qed

lemma ImageLoader_init_Inr:
  assumes "ImageLoader_init cfg w = Inr L"
    and "cfg_image_number_offset cfg = Some off"
    and "cfg_image_dataset cfg = Some d"
    and "dirs w d = Some entries"
  shows "offset L = off \<and> index L = 0 \<and> image_dataset L = d \<and>
         image_number L = int (length entries)"
  using assms by (auto simp add: ImageLoader_init_def split: option.splits)

lemma demo_images_init:
  "ImageLoader_init ((demo_config off)\<lparr>cfg_image_path_digits := Some g\<rparr>) demo_world
     = Inr (demo_images off g)"
  by (simp add: demo_images_def ImageLoader_init_def demo_config_def demo_world_def)

subsection \<open>Claims about the ImageLoader\<close>

text \<open>
  C3. For an ImageLoader constructed over a directory with \<open>N\<close> entries and offset \<open>off\<close>,
  \<^verbatim>\<open>has_images()\<close> after \<open>j\<close> reads is true exactly when \<open>j < N\<close>: it is true before each of
  the first \<open>N\<close> reads and false from then on. The \<open>k\<close>-th read, \<open>k\<close> counted from 1, hands
  the path for number \<open>k + off\<close> to the decoder and returns what it decodes.
\<close>

theorem image_loader_reads_numbered_files:
  assumes init: "ImageLoader_init cfg w = Inr L"
    and off: "cfg_image_number_offset cfg = Some off"
    and dir: "cfg_image_dataset cfg = Some d"
    and ls: "dirs w d = Some entries"
  shows "(ImageLoader_has_images (fst (snd (ImageLoader_read_n j L w))) = (j < length entries)) \<and>
         fst (ImageLoader_read_n n L w) =
           map (\<lambda>k. image_files w (numbered_path L (int k + off))) [1..<Suc n] \<and>
         imread_log (snd (snd (ImageLoader_read_n n L w))) =
           imread_log w @ map (\<lambda>k. numbered_path L (int k + off)) [1..<Suc n]"
proof -
  note i = ImageLoader_init_Inr [OF init off dir ls]
  have a: "ImageLoader_has_images (fst (snd (ImageLoader_read_n j L w))) = (j < length entries)"
    using i by (simp add: ImageLoader_read_n_eq ImageLoader_has_images_def)
  have p: "ImageLoader_path L (index L + 1 + int k) = numbered_path L (int (Suc k) + off)" for k
    using i by (simp add: ImageLoader_path_numbered add.commute add.left_commute)
  have b: "fst (ImageLoader_read_n n L w) =
           map (\<lambda>k. image_files w (numbered_path L (int k + off))) [1..<Suc n]"
    unfolding upt_from_one by (simp add: ImageLoader_read_n_eq p del: upt_Suc)
  have c: "imread_log (snd (snd (ImageLoader_read_n n L w))) =
           imread_log w @ map (\<lambda>k. numbered_path L (int k + off)) [1..<Suc n]"
    unfolding upt_from_one by (simp add: ImageLoader_read_n_eq p del: upt_Suc)
  show ?thesis using a b c by simp
qed

text \<open>
  The directory \<^verbatim>\<open>imgs\<close> has two entries; with offset 2 the two reads decode the files
  numbered 3 and 4.
\<close>

theorem image_loader_reads_numbered_files_witness:
  "ImageLoader_init ((demo_config 2)\<lparr>cfg_image_path_digits := Some 3\<rparr>) demo_world
     = Inr (demo_images 2 3) \<and>
   dirs demo_world ''imgs'' = Some [''frame003.jpg'', ''frame004.jpg''] \<and>
   ImageLoader_has_images (fst (snd (ImageLoader_read_n 1 (demo_images 2 3) demo_world))) \<and>
   \<not> ImageLoader_has_images (fst (snd (ImageLoader_read_n 2 (demo_images 2 3) demo_world))) \<and>
   fst (ImageLoader_read_n 2 (demo_images 2 3) demo_world) = [Some 103, Some 104] \<and>
   imread_log (snd (snd (ImageLoader_read_n 2 (demo_images 2 3) demo_world))) =
     [''imgs/frame003.jpg'', ''imgs/frame004.jpg'']"
proof -
  let ?cfg = "(demo_config 2)\<lparr>cfg_image_path_digits := Some 3\<rparr>"
  have init: "ImageLoader_init ?cfg demo_world = Inr (demo_images 2 3)"
    by (rule demo_images_init)
  have off: "cfg_image_number_offset ?cfg = Some 2"
    and dir: "cfg_image_dataset ?cfg = Some ''imgs''"
    by (simp_all add: demo_config_def)
  have ls: "dirs demo_world ''imgs'' = Some [''frame003.jpg'', ''frame004.jpg'']"
    by (simp add: demo_world_def)
  have p1: "numbered_path (demo_images 2 3) 3 = ''imgs/frame003.jpg''" by code_simp
  have p2: "numbered_path (demo_images 2 3) 4 = ''imgs/frame004.jpg''" by code_simp
  have f1: "image_files demo_world ''imgs/frame003.jpg'' = Some 103"
    and f2: "image_files demo_world ''imgs/frame004.jpg'' = Some 104"
    and lg: "imread_log demo_world = []"
    by (simp_all add: demo_world_def)
  have u: "[Suc 0..<3] = [1, 2]" by code_simp
  show ?thesis
    using image_loader_reads_numbered_files [OF init off dir ls, of 1 2]
      image_loader_reads_numbered_files [OF init off dir ls, of 2 2]
    by (simp add: init ls u p1 p2 f1 f2 lg del: upt_Suc)
qed


text \<open>
  C5, as amended. The path for logical position \<open>i\<close> is the directory, a slash, the prefix,
  the number \<open>i + offset\<close> in the zero-padded format of width 5 when the digit count is 5,
  3 when it is 3 and 4 otherwise, and \<^verbatim>\<open>.jpg\<close>. For \<open>0 \<le> i + offset < 10 ^ width\<close> the
  number field has exactly that many characters, all of them digits, and denotes
  \<open>i + offset\<close>. A number of \<open>10 ^ width\<close> or more is written in full, with more digits than
  the width.
\<close>

theorem image_path_zero_padded:
  "ImageLoader_path L i =
     image_dataset L @ ''/'' @ prefix L @
       format_zero_padded (pad_width (digits L)) (i + offset L) @ ''.jpg'' \<and>
   pad_width (digits L) = (if digits L = 5 then 5 else if digits L = 3 then 3 else 4) \<and>
   (0 \<le> i + offset L \<and> i + offset L < 10 ^ pad_width (digits L) \<longrightarrow>
      length (format_zero_padded (pad_width (digits L)) (i + offset L)) = pad_width (digits L) \<and>
      set (format_zero_padded (pad_width (digits L)) (i + offset L)) \<subseteq> set ''0123456789'' \<and>
      decimal_value (format_zero_padded (pad_width (digits L)) (i + offset L))
        = nat (i + offset L)) \<and>
   (10 ^ pad_width (digits L) \<le> j + offset L \<longrightarrow>
      format_zero_padded (pad_width (digits L)) (j + offset L) = decimal (nat (j + offset L)) \<and>
      pad_width (digits L) < length (format_zero_padded (pad_width (digits L)) (j + offset L)))"
proof (intro conjI impI)
  show "ImageLoader_path L i =
     image_dataset L @ ''/'' @ prefix L @
       format_zero_padded (pad_width (digits L)) (i + offset L) @ ''.jpg''"
    by (simp add: ImageLoader_path_numbered numbered_path_def)
  show "pad_width (digits L) = (if digits L = 5 then 5 else if digits L = 3 then 3 else 4)"
    by (simp add: pad_width_def)
next
  assume a: "0 \<le> i + offset L \<and> i + offset L < 10 ^ pad_width (digits L)"
  note f = format_fits [OF pad_width_pos, of "i + offset L" "digits L"]
  show "length (format_zero_padded (pad_width (digits L)) (i + offset L)) = pad_width (digits L)"
    using a f by blast
  show "set (format_zero_padded (pad_width (digits L)) (i + offset L)) \<subseteq> set ''0123456789''"
    using a f by blast
  show "decimal_value (format_zero_padded (pad_width (digits L)) (i + offset L))
        = nat (i + offset L)"
    using a f by blast
next
  assume b: "10 ^ pad_width (digits L) \<le> j + offset L"
  note g = format_overflow [OF pad_width_pos b]
  show "format_zero_padded (pad_width (digits L)) (j + offset L) = decimal (nat (j + offset L))"
    using g by blast
  show "pad_width (digits L) < length (format_zero_padded (pad_width (digits L)) (j + offset L))"
    using g by blast
qed

text \<open>
  With three digits and offset 2, position 1 gives \<^verbatim>\<open>imgs/frame003.jpg\<close>, and position
  998 falls in the second case.
\<close>

theorem image_path_zero_padded_witness:
  "(0::int) \<le> 1 + offset (demo_images 2 3) \<and>
   1 + offset (demo_images 2 3) < 10 ^ pad_width (digits (demo_images 2 3)) \<and>
   (10::int) ^ pad_width (digits (demo_images 2 3)) \<le> 998 + offset (demo_images 2 3) \<and>
   ImageLoader_path (demo_images 2 3) 1 = ''imgs/frame003.jpg'' \<and>
   length (format_zero_padded (pad_width (digits (demo_images 2 3)))
             (1 + offset (demo_images 2 3))) = pad_width (digits (demo_images 2 3)) \<and>
   decimal_value (format_zero_padded (pad_width (digits (demo_images 2 3)))
             (1 + offset (demo_images 2 3))) = nat (1 + offset (demo_images 2 3)) \<and>
   pad_width (digits (demo_images 2 3)) <
     length (format_zero_padded (pad_width (digits (demo_images 2 3)))
               (998 + offset (demo_images 2 3)))"
proof -
  have h1: "(0::int) \<le> 1 + offset (demo_images 2 3) \<and>
            1 + offset (demo_images 2 3) < 10 ^ pad_width (digits (demo_images 2 3))"
    by code_simp
  have h2: "(10::int) ^ pad_width (digits (demo_images 2 3)) \<le> 998 + offset (demo_images 2 3)"
    by code_simp
  have p: "ImageLoader_path (demo_images 2 3) 1 = ''imgs/frame003.jpg''" by code_simp
  show ?thesis
    using image_path_zero_padded [of "demo_images 2 3" 1 998] h1 h2 p by blast
qed

text \<open>
  C5 as stated fails once the number outgrows the width: with three digits and offset 2,
  position 998 has the number 1000, written with four digits.
\<close>

theorem image_path_wider_than_digits_counterexample:
  "digits (demo_images 2 3) = 3 \<and> offset (demo_images 2 3) = 2 \<and>
   ImageLoader_path (demo_images 2 3) 998 = ''imgs/frame1000.jpg'' \<and>
   format_zero_padded 3 (998 + 2) = ''1000'' \<and>
   length (format_zero_padded 3 (998 + 2)) = 4"
  by code_simp

text \<open>
  C7. \<^verbatim>\<open>set_index(v)\<close> followed by \<^verbatim>\<open>read()\<close> hands the path of logical position
  \<open>v + 1\<close>, the file numbered \<open>v + 1 + offset\<close>, to the decoder, returns what it decodes and
  leaves the index at \<open>v + 1\<close>.
\<close>

theorem set_index_then_read:
  "ImageLoader_read (ImageLoader_set_index L v) w =
     (image_files w (ImageLoader_path L (v + 1)),
      L\<lparr>index := v + 1\<rparr>,
      w\<lparr>imread_log := imread_log w @ [ImageLoader_path L (v + 1)]\<rparr>) \<and>
   ImageLoader_path L (v + 1) = numbered_path L (v + 1 + offset L)"
  by (simp add: ImageLoader_read_eq ImageLoader_set_index_def ImageLoader_path_index)
     (simp add: ImageLoader_path_numbered)

text \<open>
  C8, as amended. When the file at the computed path is missing or does not decode,
  \<^verbatim>\<open>read()\<close> returns \<^verbatim>\<open>None\<close>, the decoder's empty result, as an ordinary value: the index
  is advanced by one and the decoder has been called once on that path, with no retry and
  no error raised.
\<close>

theorem image_read_missing_file_returns_none:
  assumes "image_files w (ImageLoader_path L (index L + 1)) = None"
  shows "ImageLoader_read L w =
           (None, L\<lparr>index := index L + 1\<rparr>,
            w\<lparr>imread_log := imread_log w @ [ImageLoader_path L (index L + 1)]\<rparr>)"
  using assms by (simp add: ImageLoader_read_eq)

text \<open>After \<^verbatim>\<open>set_index(7)\<close> the next file is number 10, which the directory lacks.\<close>

theorem image_read_missing_file_returns_none_witness:
  "image_files demo_world
     (ImageLoader_path (ImageLoader_set_index (demo_images 2 3) 7)
        (index (ImageLoader_set_index (demo_images 2 3) 7) + 1)) = None \<and>
   ImageLoader_read (ImageLoader_set_index (demo_images 2 3) 7) demo_world =
     (None,
      (ImageLoader_set_index (demo_images 2 3) 7)
        \<lparr>index := index (ImageLoader_set_index (demo_images 2 3) 7) + 1\<rparr>,
      demo_world\<lparr>imread_log := imread_log demo_world @
        [ImageLoader_path (ImageLoader_set_index (demo_images 2 3) 7)
           (index (ImageLoader_set_index (demo_images 2 3) 7) + 1)]\<rparr>)"
proof -
  have missing: "image_files demo_world
     (ImageLoader_path (ImageLoader_set_index (demo_images 2 3) 7)
        (index (ImageLoader_set_index (demo_images 2 3) 7) + 1)) = None"
    by code_simp
  show ?thesis
    using image_read_missing_file_returns_none [OF missing] missing by blast
qed

text \<open>
  C8 as stated fails: the read of the missing file \<^verbatim>\<open>imgs/frame010.jpg\<close> returns
  \<^verbatim>\<open>None\<close> to the caller and moves the index to 8; nothing is raised.
\<close>

theorem image_read_missing_file_counterexample:
  "ImageLoader_path (demo_images 2 3) 8 = ''imgs/frame010.jpg'' \<and>
   image_files demo_world ''imgs/frame010.jpg'' = None \<and>
   fst (ImageLoader_read (ImageLoader_set_index (demo_images 2 3) 7) demo_world) = None \<and>
   index (fst (snd (ImageLoader_read (ImageLoader_set_index (demo_images 2 3) 7) demo_world))) = 8 \<and>
   imread_log (snd (snd (ImageLoader_read (ImageLoader_set_index (demo_images 2 3) 7) demo_world)))
     = [''imgs/frame010.jpg'']"
  by code_simp

section \<open>Properties of get_loader\<close>

lemma ImageLoader_init_ok:
  assumes "cfg_image_number_offset cfg = Some off" "cfg_image_dataset cfg = Some d"
    "cfg_image_path_prefix cfg = Some p" "cfg_image_path_digits cfg = Some g"
    "dirs w d = Some entries"
  shows "ImageLoader_init cfg w =
           Inr \<lparr>offset = off, index = 0, image_dataset = d, prefix = p, digits = g,
                image_number = int (length entries)\<rparr>"
  using assms by (simp add: ImageLoader_init_def)

text \<open>
  C4. When the configuration file has a record under the session key, the record names an
  image directory that exists, and the record has the keys the chosen constructor reads,
  \<^verbatim>\<open>get_loader\<close> returns the ImageLoader built from the record if the directory has at
  least one entry, and the VideoLoader built from it if the directory has none.
\<close>

theorem get_loader_selects_by_directory:
  assumes cfile: "config_files w config_path = Some js"
    and key: "js video_identifier = Some cfg"
    and dir: "cfg_image_dataset cfg = Some d"
    and ls: "dirs w d = Some entries"
    and off: "cfg_image_number_offset cfg = Some off"
    and img: "entries \<noteq> [] \<longrightarrow>
                cfg_image_path_prefix cfg \<noteq> None \<and> cfg_image_path_digits cfg \<noteq> None"
    and vid: "entries = [] \<longrightarrow> cfg_video_path cfg \<noteq> None"
  shows "\<not> isl (get_loader config_path video_identifier w) \<and>
         (entries \<noteq> [] \<longrightarrow>
            is_ImageLoader (fst (projr (get_loader config_path video_identifier w))) \<and>
            get_loader config_path video_identifier w
              = Inr (ImageL (projr (ImageLoader_init cfg w)), w)) \<and>
         (entries = [] \<longrightarrow>
            is_VideoLoader (fst (projr (get_loader config_path video_identifier w))) \<and>
            get_loader config_path video_identifier w
              = Inr (VideoL (fst (projr (VideoLoader_init cfg w))),
                     snd (projr (VideoLoader_init cfg w))))"
proof (cases "entries = []")
  case True
  then obtain p where p: "cfg_video_path cfg = Some p" using vid by auto
  have "get_loader config_path video_identifier w
          = Inr (VideoL (fst (projr (VideoLoader_init cfg w))),
                 snd (projr (VideoLoader_init cfg w)))"
    using True by (simp add: get_loader_def cfile key dir ls init_start [OF off p] split_def)
  then show ?thesis using True by simp
next
  case False
  then obtain p g where pg: "cfg_image_path_prefix cfg = Some p" "cfg_image_path_digits cfg = Some g"
    using img by auto
  have "get_loader config_path video_identifier w
          = Inr (ImageL (projr (ImageLoader_init cfg w)), w)"
    using False
    by (simp add: get_loader_def cfile key dir ls ImageLoader_init_ok [OF off dir pg ls])
  then show ?thesis using False by simp
qed

text \<open>
  The session \<^verbatim>\<open>images\<close> points at a directory with two entries, the session
  \<^verbatim>\<open>video\<close> at an empty one.
\<close>

theorem get_loader_selects_by_directory_witness:
  "config_files demo_world ''station.json'' \<noteq> None \<and>
   dirs demo_world ''imgs'' = Some [''frame003.jpg'', ''frame004.jpg''] \<and>
   dirs demo_world ''empty'' = Some [] \<and>
   is_ImageLoader (fst (projr (get_loader ''station.json'' ''images'' demo_world))) \<and>
   is_VideoLoader (fst (projr (get_loader ''station.json'' ''video'' demo_world)))"
proof -
  let ?js = "[''images'' \<mapsto> demo_config 2,
              ''video'' \<mapsto> (demo_config 1)\<lparr>cfg_image_dataset := Some ''empty''\<rparr>]"
  have cfile: "config_files demo_world ''station.json'' = Some ?js"
    by (simp add: demo_world_def)
  have k1: "?js ''images'' = Some (demo_config 2)" by simp
  have k2: "?js ''video'' = Some ((demo_config 1)\<lparr>cfg_image_dataset := Some ''empty''\<rparr>)"
    by simp
  have l1: "dirs demo_world ''imgs'' = Some [''frame003.jpg'', ''frame004.jpg'']"
    and l2: "dirs demo_world ''empty'' = Some []"
    by (simp_all add: demo_world_def)
  have a: "is_ImageLoader (fst (projr (get_loader ''station.json'' ''images'' demo_world)))"
    using get_loader_selects_by_directory [OF cfile k1 _ l1, of 2]
    by (simp add: demo_config_def)
  have b: "is_VideoLoader (fst (projr (get_loader ''station.json'' ''video'' demo_world)))"
    using get_loader_selects_by_directory [OF cfile k2 _ l2, of 1]
    by (simp add: demo_config_def)
  show ?thesis using cfile l1 l2 a b by simp
qed

end
